theory Spec2Isabelle
  imports Complex_Main "HOL-Library.Log_Nat"
begin

section \<open>JavaScript values\<close>

text \<open>
  The server of \<^verbatim>\<open>server.js\<close> keeps a \<^verbatim>\<open>Map\<close> of user records in memory,
  writes it to \<^verbatim>\<open>data/user_data.json\<close> after every accepted submission and reads
  it back at start-up. Its handlers work on whatever \<^verbatim>\<open>express.json()\<close> and
  \<^verbatim>\<open>JSON.parse\<close> hand them, so the values of the model are JavaScript values.

  A number is an IEEE 754 double. A finite double is modelled by the rational it
  denotes; the two infinities and NaN are values of their own. The sign of zero is
  not modelled: the program never looks at it, both zeros are falsy and both are
  written as \<^verbatim>\<open>0\<close> by \<^verbatim>\<open>JSON.stringify\<close>.
\<close>

datatype jsnum = Fin rat | PosInf | NegInf | NaN

text \<open>
  Rounding a rational to the nearest double, ties to the even significand, as every
  arithmetic operation of the language does with its exact result. A significand
  has 53 bits: a positive value \<open>a\<close> between \<open>2 powi e\<close> and \<open>2 powi (e + 1)\<close> is rounded
  to a multiple of \<open>2 powi (e - 52)\<close>, its unit in the last place, which is never
  smaller than \<open>2 powi (- 1074)\<close> (the subnormal range). A result that rounds to
  \<open>2 powi 1024\<close> or more overflows to an infinity.
\<close>

definition round_even :: "rat \<Rightarrow> int" where
  "round_even x =
     (let f = \<lfloor>x\<rfloor>; d = x - of_int f
      in if d < 1 / 2 then f else if 1 / 2 < d then f + 1 else if even f then f else f + 1)"

text \<open>The exponent \<open>e\<close> with \<open>2\<^sup>e \<le> a < 2\<^sup>e\<^sup>+\<^sup>1\<close> of a positive rational, from the bit
  lengths of its numerator and denominator.\<close>

definition ilog2 :: "rat \<Rightarrow> int" where
  "ilog2 a =
     (case quotient_of a of (p, q) \<Rightarrow>
        let d = int (floorlog 2 (nat p)) - int (floorlog 2 (nat q))
        in if 2 powi d \<le> a then d else d - 1)"

definition ulp_exp :: "rat \<Rightarrow> int" where
  "ulp_exp a = max (ilog2 a - 52) (- 1074)"

definition round_pos :: "rat \<Rightarrow> rat" where
  "round_pos a = of_int (round_even (a / 2 powi ulp_exp a)) * 2 powi ulp_exp a"

definition round_double :: "rat \<Rightarrow> jsnum" where
  "round_double r =
     (if r = 0 then Fin 0
      else if 2 powi 1024 \<le> round_pos \<bar>r\<bar> then (if 0 < r then PosInf else NegInf)
      else if 0 < r then Fin (round_pos \<bar>r\<bar>) else Fin (- round_pos \<bar>r\<bar>))"

text \<open>The finite values that are doubles: rounding leaves them as they are.\<close>

fun is_double :: "jsnum \<Rightarrow> bool" where
  "is_double (Fin q) = (round_double q = Fin q)"
| "is_double n = True"

text \<open>
  An object is the list of its own properties in creation order; a property is read
  with \<open>map_of\<close>, and the operations below never bind a name twice in an object they
  build. A string is a list of characters, one per code point.
\<close>

datatype jsval =
    JUndefined
  | JNull
  | JBool bool
  | JNum jsnum
  | JStr string
  | JArr "jsval list"
  | JObj "(string \<times> jsval) list"

datatype jstype = TUndefined | TObject | TBoolean | TNumber | TString

datatype js_error = TypeError | SyntaxError | IOError

text \<open>The \<^verbatim>\<open>typeof\<close> operator: \<^verbatim>\<open>null\<close> and arrays are objects.\<close>

fun typeof :: "jsval \<Rightarrow> jstype" where
  "typeof JUndefined = TUndefined"
| "typeof JNull = TObject"
| "typeof (JBool b) = TBoolean"
| "typeof (JNum n) = TNumber"
| "typeof (JStr s) = TString"
| "typeof (JArr xs) = TObject"
| "typeof (JObj fs) = TObject"

text \<open>
  Truthiness, as \<^verbatim>\<open>!x\<close> and \<^verbatim>\<open>x && y\<close> test it: \<^verbatim>\<open>undefined\<close>, \<^verbatim>\<open>null\<close>,
  \<^verbatim>\<open>false\<close>, zero, NaN and the empty string are falsy.
\<close>

fun truthy :: "jsval \<Rightarrow> bool" where
  "truthy JUndefined = False"
| "truthy JNull = False"
| "truthy (JBool b) = b"
| "truthy (JNum (Fin r)) = (r \<noteq> 0)"
| "truthy (JNum NaN) = False"
| "truthy (JNum PosInf) = True"
| "truthy (JNum NegInf) = True"
| "truthy (JStr s) = (s \<noteq> [])"
| "truthy (JArr xs) = True"
| "truthy (JObj fs) = True"

text \<open>
  The \<^verbatim>\<open>+\<close> of two numbers, as \<^verbatim>\<open>current += user.playerCount\<close> uses it: the exact
  sum of two finite doubles, rounded; the rules of IEEE 754 for infinities and NaN.
\<close>

fun js_add :: "jsnum \<Rightarrow> jsnum \<Rightarrow> jsnum" where
  "js_add (Fin a) (Fin b) = round_double (a + b)"
| "js_add NaN y = NaN"
| "js_add x NaN = NaN"
| "js_add PosInf NegInf = NaN"
| "js_add NegInf PosInf = NaN"
| "js_add PosInf y = PosInf"
| "js_add x PosInf = PosInf"
| "js_add NegInf y = NegInf"
| "js_add x NegInf = NegInf"

text \<open>
  Reading a property \<^verbatim>\<open>v.name\<close> for a name that no prototype defines
  (\<^verbatim>\<open>userId\<close>, \<^verbatim>\<open>playerCount\<close>): a TypeError on \<^verbatim>\<open>undefined\<close> and \<^verbatim>\<open>null\<close>,
  the own property of an object, \<^verbatim>\<open>undefined\<close> everywhere else.
\<close>

fun get_prop :: "jsval \<Rightarrow> string \<Rightarrow> js_error + jsval" where
  "get_prop JUndefined name = Inl TypeError"
| "get_prop JNull name = Inl TypeError"
| "get_prop (JObj fs) name = Inr (case map_of fs name of None \<Rightarrow> JUndefined | Some v \<Rightarrow> v)"
| "get_prop v name = Inr JUndefined"

text \<open>The decimal name of an array index, the key under which an element is a property.\<close>

function index_key :: "nat \<Rightarrow> string" where
  "index_key n =
     (if n < 10 then [char_of (48 + n)]
      else index_key (n div 10) @ [char_of (48 + n mod 10)])"
  by pat_completeness auto

termination
  by (relation "measure id") auto

text \<open>
  The own enumerable properties of a value, which a rest pattern or a spread copies:
  the fields of an object, the indexed elements of an array or of a string, and
  nothing for the other primitives.
\<close>

fun own_props :: "jsval \<Rightarrow> (string \<times> jsval) list" where
  "own_props (JObj fs) = fs"
| "own_props (JArr xs) = zip (map index_key [0..<length xs]) xs"
| "own_props (JStr s) = zip (map index_key [0..<length s]) (map (\<lambda>c. JStr [c]) s)"
| "own_props v = []"

text \<open>
  Defining a property on an object: an existing name keeps its place and takes the
  new value, a new name goes to the end. (JavaScript enumerates integer-like names
  before the others; the order of the properties plays no part below.)
\<close>

fun obj_set :: "(string \<times> jsval) list \<Rightarrow> string \<Rightarrow> jsval \<Rightarrow> (string \<times> jsval) list" where
  "obj_set [] k v = [(k, v)]"
| "obj_set ((k', v') # fs) k v =
     (if k' = k then (k', v) # fs else (k', v') # obj_set fs k v)"

text \<open>
  The spread \<^verbatim>\<open>{ ...base, ...other }\<close>: the properties of \<open>other\<close> are defined one
  after the other on the object built so far, so a name that \<open>base\<close> already has is
  overwritten.
\<close>

definition spread :: "(string \<times> jsval) list \<Rightarrow> (string \<times> jsval) list \<Rightarrow> (string \<times> jsval) list" where
  "spread base other = fold (\<lambda>(k, v) fs. obj_set fs k v) other base"

section \<open>The in-memory Map\<close>

text \<open>
  \<^verbatim>\<open>const userData = new Map()\<close>: the entries in insertion order. Keys are compared
  by SameValueZero: primitives by value, objects and arrays by identity, and every
  object that reaches the map as a key is a fresh one out of \<^verbatim>\<open>JSON.parse\<close>, equal
  to no other key.
\<close>

type_synonym store = "(jsval \<times> jsval) list"

fun same_value_zero :: "jsval \<Rightarrow> jsval \<Rightarrow> bool" where
  "same_value_zero (JArr xs) b = False"
| "same_value_zero (JObj fs) b = False"
| "same_value_zero a b = (a = b)"

text \<open>\<^verbatim>\<open>userData.set(k, v)\<close>: an existing key keeps its position.\<close>

fun map_set :: "store \<Rightarrow> jsval \<Rightarrow> jsval \<Rightarrow> store" where
  "map_set [] k v = [(k, v)]"
| "map_set ((k', v') # m) k v =
     (if same_value_zero k' k then (k', v) # m else (k', v') # map_set m k v)"

text \<open>\<^verbatim>\<open>userData.get(k)\<close>, used to say what the map holds under a key.\<close>

fun map_get :: "store \<Rightarrow> jsval \<Rightarrow> jsval" where
  "map_get [] k = JUndefined"
| "map_get ((k', v') # m) k = (if same_value_zero k' k then v' else map_get m k)"

text \<open>The invariant of a Map: no two entries have the same key.\<close>

fun map_inv :: "store \<Rightarrow> bool" where
  "map_inv [] = True"
| "map_inv ((k, v) # m) = (list_all (\<lambda>e. \<not> same_value_zero k (fst e)) m \<and> map_inv m)"

section \<open>The data file\<close>

text \<open>
  The text of \<^verbatim>\<open>user_data.json\<close> is modelled by what \<^verbatim>\<open>JSON.parse\<close> makes of
  it: a text that it rejects with a SyntaxError, or the value it returns.
\<close>

datatype file_text = Unparsable | Document jsval

fun JSON_parse :: "file_text \<Rightarrow> js_error + jsval" where
  "JSON_parse Unparsable = Inl SyntaxError"
| "JSON_parse (Document v) = Inr v"

text \<open>
  What \<^verbatim>\<open>JSON.stringify\<close> writes and \<^verbatim>\<open>JSON.parse\<close> reads back: JSON has no
  \<^verbatim>\<open>undefined\<close> and no non-finite number. An array element of that kind is written
  as \<^verbatim>\<open>null\<close>, a property whose value is \<^verbatim>\<open>undefined\<close> is left out.
\<close>

fun finite_num :: "jsnum \<Rightarrow> bool" where
  "finite_num (Fin r) = True"
| "finite_num n = False"

fun to_json :: "jsval \<Rightarrow> jsval" where
  "to_json JUndefined = JNull"
| "to_json JNull = JNull"
| "to_json (JBool b) = JBool b"
| "to_json (JNum n) = (if finite_num n then JNum n else JNull)"
| "to_json (JStr s) = JStr s"
| "to_json (JArr xs) = JArr (map to_json xs)"
| "to_json (JObj fs) =
     JObj (map (\<lambda>(k, v). (k, to_json v)) (filter (\<lambda>(k, v). v \<noteq> JUndefined) fs))"

definition JSON_stringify :: "jsval \<Rightarrow> file_text" where
  "JSON_stringify v = Document (to_json v)"

text \<open>The values JSON represents exactly: no \<^verbatim>\<open>undefined\<close>, every number finite.\<close>

fun jsonable :: "jsval \<Rightarrow> bool" where
  "jsonable JUndefined = False"
| "jsonable JNull = True"
| "jsonable (JBool b) = True"
| "jsonable (JNum n) = finite_num n"
| "jsonable (JStr s) = True"
| "jsonable (JArr xs) = list_all jsonable xs"
| "jsonable (JObj fs) = list_all (\<lambda>(k, v). jsonable v) fs"

text \<open>
  The disk: the file is absent or holds a text. How a write ends is decided by the
  disk, not by the program. \<^verbatim>\<open>fs.writeFile\<close> opens the file with flag \<^verbatim>\<open>'w'\<close>, which
  creates or truncates it, and then writes the text:
  \<^item> the write succeeds and the file holds the text;
  \<^item> the open is refused (no permission, a read-only disk, a missing directory) and
    the file is as it was;
  \<^item> the file was opened and the write then fails (a full disk): the file holds a
    proper prefix of the text, possibly nothing. The text is that of a JSON array,
    which ends with its closing bracket, so no proper prefix of it is valid JSON.
\<close>

datatype write_result = Written | RefusedAtOpen | FailedAfterOpen

record disk =
  content :: "file_text option"
  on_write :: write_result

abbreviation writable :: "disk \<Rightarrow> bool" where
  "writable d \<equiv> on_write d = Written"

definition fs_readFile :: "disk \<Rightarrow> js_error + file_text" where
  "fs_readFile d = (case content d of None \<Rightarrow> Inl IOError | Some t \<Rightarrow> Inr t)"

text \<open>The disk after the call, and the error with which the promise was rejected.\<close>

definition fs_writeFile :: "disk \<Rightarrow> file_text \<Rightarrow> disk \<times> js_error option" where
  "fs_writeFile d t =
     (case on_write d of
        Written \<Rightarrow> (d\<lparr>content := Some t\<rparr>, None)
      | RefusedAtOpen \<Rightarrow> (d, Some IOError)
      | FailedAfterOpen \<Rightarrow> (d\<lparr>content := Some Unparsable\<rparr>, Some IOError))"

section \<open>The server\<close>

text \<open>What the process writes to its console.\<close>

datatype log_line =
    ErrorSavingUserData js_error
  | LoadedUsers nat
  | StartingFresh

record server =
  userData :: store
  files :: disk
  console :: "log_line list"

text \<open>
  What the client is answered: a status and the JSON document of the body, or an
  exception that left the handler for the framework to report. \<^verbatim>\<open>res.json(v)\<close>
  sends \<^verbatim>\<open>JSON.stringify(v)\<close> with the status set before (200 if none was), so the
  client reads \<open>to_json v\<close>.
\<close>

datatype response = Response nat jsval | Uncaught js_error

definition res_json :: "nat \<Rightarrow> jsval \<Rightarrow> response" where
  "res_json status v = Response status (to_json v)"

text \<open>\<^verbatim>\<open>[...userData.entries()]\<close>: the array of the \<^verbatim>\<open>[key, value]\<close> pairs.\<close>

definition entries :: "store \<Rightarrow> jsval" where
  "entries m = JArr (map (\<lambda>(k, v). JArr [k, v]) m)"

text \<open>
  \<^verbatim>\<open>saveUserData\<close>: a failed write is caught inside the function and logged;
  nothing is thrown to the caller.
\<close>

definition saveUserData :: "server \<Rightarrow> server" where
  "saveUserData s =
     (case fs_writeFile (files s) (JSON_stringify (entries (userData s))) of
        (d, Some e) \<Rightarrow> s\<lparr>files := d, console := console s @ [ErrorSavingUserData e]\<rparr>
      | (d, None) \<Rightarrow> s\<lparr>files := d\<rparr>)"

text \<open>
  The array pattern \<^verbatim>\<open>[id, user]\<close> of the callback in \<^verbatim>\<open>loadUserData\<close>: the first two
  items the element yields when iterated, \<^verbatim>\<open>undefined\<close> where it yields fewer. Arrays
  and strings are iterable; anything else is a TypeError.
\<close>

fun item :: "jsval list \<Rightarrow> nat \<Rightarrow> jsval" where
  "item xs i = (if i < length xs then xs ! i else JUndefined)"

fun destructure_pair :: "jsval \<Rightarrow> js_error + (jsval \<times> jsval)" where
  "destructure_pair (JArr xs) = Inr (item xs 0, item xs 1)"
| "destructure_pair (JStr s) =
     Inr (item (map (\<lambda>c. JStr [c]) s) 0, item (map (\<lambda>c. JStr [c]) s) 1)"
| "destructure_pair v = Inl TypeError"

text \<open>
  \<^verbatim>\<open>parsed.forEach(([id, user]) => userData.set(id, user))\<close> over the elements of an
  array: the exception of an element that is no pair ends the loop, and the entries
  set before it stay in the map.
\<close>

fun forEach_set :: "store \<Rightarrow> jsval list \<Rightarrow> store \<times> js_error option" where
  "forEach_set m [] = (m, None)"
| "forEach_set m (x # xs) =
     (case destructure_pair x of
        Inl e \<Rightarrow> (m, Some e)
      | Inr (key, user) \<Rightarrow> forEach_set (map_set m key user) xs)"

text \<open>
  \<^verbatim>\<open>loadUserData\<close>. The read and the parse come before \<^verbatim>\<open>userData.clear()\<close>, so
  their failure leaves the map as it was; a parsed value that is no array has no
  \<^verbatim>\<open>forEach\<close> to call, which throws after the map was cleared. Every exception ends
  in the same \<^verbatim>\<open>catch\<close>, which logs and returns.
\<close>

definition loadUserData :: "server \<Rightarrow> server" where
  "loadUserData s =
     (case fs_readFile (files s) of
        Inl e \<Rightarrow> s\<lparr>console := console s @ [StartingFresh]\<rparr>
      | Inr data \<Rightarrow>
          (case JSON_parse data of
             Inl e \<Rightarrow> s\<lparr>console := console s @ [StartingFresh]\<rparr>
           | Inr parsed \<Rightarrow>
               (case parsed of
                  JArr xs \<Rightarrow>
                    (case forEach_set [] xs of
                       (m, None) \<Rightarrow>
                         s\<lparr>userData := m, console := console s @ [LoadedUsers (length m)]\<rparr>
                     | (m, Some e) \<Rightarrow>
                         s\<lparr>userData := m, console := console s @ [StartingFresh]\<rparr>)
                | _ \<Rightarrow> s\<lparr>userData := [], console := console s @ [StartingFresh]\<rparr>)))"

text \<open>A process starts with an empty map and console on the disk it finds.\<close>

definition boot :: "disk \<Rightarrow> server" where
  "boot d = \<lparr>userData = [], files = d, console = []\<rparr>"

text \<open>\<^verbatim>\<open>init\<close>, as far as the store goes: load the file into the empty map.\<close>

definition init :: "disk \<Rightarrow> server" where
  "init d = loadUserData (boot d)"

section \<open>POST /userlist\<close>

text \<open>
  \<^verbatim>\<open>const { userId, playerCount, ...otherData } = req.body\<close>: a TypeError when the
  body is \<^verbatim>\<open>undefined\<close> or \<^verbatim>\<open>null\<close>; otherwise the two named properties and, in
  \<open>otherData\<close>, every other own property of the body.
\<close>

definition destructure_body :: "jsval \<Rightarrow> js_error + (jsval \<times> jsval \<times> (string \<times> jsval) list)" where
  "destructure_body body =
     (case get_prop body ''userId'' of
        Inl e \<Rightarrow> Inl e
      | Inr userId \<Rightarrow>
          (case get_prop body ''playerCount'' of
             Inl e \<Rightarrow> Inl e
           | Inr playerCount \<Rightarrow>
               Inr (userId, playerCount,
                    filter (\<lambda>(k, v). k \<noteq> ''userId'' \<and> k \<noteq> ''playerCount'') (own_props body))))"

text \<open>
  The object literal of the handler,
  \<^verbatim>\<open>{ playerCount: ..., lastUpdated: Date.now(), ...otherData }\<close>, with the clock's
  reading \<open>now\<close> (milliseconds) as a parameter. The spread comes last.
\<close>

definition new_record :: "jsval \<Rightarrow> int \<Rightarrow> (string \<times> jsval) list \<Rightarrow> jsval" where
  "new_record playerCount now otherData =
     JObj (spread
       [(''playerCount'', if typeof playerCount = TNumber then playerCount else JNum (Fin 0)),
        (''lastUpdated'', JNum (Fin (of_int now)))]
       otherData)"

text \<open>
  The three answers of the handler. Their bodies are fixed objects of strings and
  booleans, which \<^verbatim>\<open>res.json\<close> sends as they are (\<open>res_json_fixed\<close> below).
\<close>

abbreviation invalid_userId :: response where
  "invalid_userId \<equiv> Response 400 (JObj [(''error'', JStr ''Missing or invalid userId'')])"

abbreviation data_saved :: response where
  "data_saved \<equiv>
     Response 200 (JObj [(''success'', JBool True), (''message'', JStr ''Data saved successfully'')])"

abbreviation failed_to_save :: response where
  "failed_to_save \<equiv> Response 500 (JObj [(''error'', JStr ''Failed to save data'')])"

text \<open>
  The handler of \<^verbatim>\<open>POST /userlist\<close> on the body that \<^verbatim>\<open>express.json()\<close> left in
  \<^verbatim>\<open>req.body\<close>. The \<^verbatim>\<open>catch\<close> of the handler sees only what is thrown inside its own
  \<^verbatim>\<open>try\<close>: \<^verbatim>\<open>saveUserData\<close> throws nothing.
\<close>

definition post_userlist :: "int \<Rightarrow> server \<Rightarrow> jsval \<Rightarrow> server \<times> response" where
  "post_userlist now s body =
     (case destructure_body body of
        Inl e \<Rightarrow> (s\<lparr>console := console s @ [ErrorSavingUserData e]\<rparr>, failed_to_save)
      | Inr (userId, playerCount, otherData) \<Rightarrow>
          if \<not> truthy userId \<or> typeof userId \<noteq> TString then (s, invalid_userId)
          else
            (saveUserData
               (s\<lparr>userData := map_set (userData s) userId (new_record playerCount now otherData)\<rparr>),
             data_saved))"

section \<open>GET /player-count\<close>

text \<open>
  The callback of \<^verbatim>\<open>userData.forEach\<close>, run over the values of the map in insertion
  order. Reading \<^verbatim>\<open>user.playerCount\<close> throws on a record that is \<^verbatim>\<open>undefined\<close> or
  \<^verbatim>\<open>null\<close>; a value counts when it is truthy and a number (the \<open>JNum\<close> case).
\<close>

fun count_players :: "jsnum \<times> jsnum \<Rightarrow> jsval list \<Rightarrow> js_error + jsnum \<times> jsnum" where
  "count_players (current, total') [] = Inr (current, total')"
| "count_players (current, total') (user # users) =
     (case get_prop user ''playerCount'' of
        Inl e \<Rightarrow> Inl e
      | Inr playerCount \<Rightarrow>
          (case playerCount of
             JNum n \<Rightarrow>
               if truthy playerCount
               then count_players (js_add current n, js_add total' n) users
               else count_players (current, total') users
           | _ \<Rightarrow> count_players (current, total') users))"

definition counts :: "store \<Rightarrow> js_error + jsnum \<times> jsnum" where
  "counts m = count_players (Fin 0, Fin 0) (map snd m)"

definition get_player_count :: "server \<Rightarrow> response" where
  "get_player_count s =
     (case counts (userData s) of
        Inl e \<Rightarrow> Uncaught e
      | Inr (current, total') \<Rightarrow>
          res_json 200 (JObj [(''current'', JNum current), (''total'', JNum total')]))"

text \<open>
  The aggregate in the words of the specification: the sum of \<open>playerCount\<close> over the
  records whose \<open>playerCount\<close> is a number. The sum of a list of numbers is the one
  the language computes: from 0, left to right, with its \<^verbatim>\<open>+\<close>.
\<close>

definition numeric_playerCounts :: "store \<Rightarrow> jsnum list" where
  "numeric_playerCounts m =
     concat (map (\<lambda>(k, user).
       case get_prop user ''playerCount'' of Inr (JNum n) \<Rightarrow> [n] | _ \<Rightarrow> []) m)"

definition spec_aggregate :: "store \<Rightarrow> jsnum" where
  "spec_aggregate m = foldl js_add (Fin 0) (numeric_playerCounts m)"

section \<open>Properties of the operations\<close>

subsection \<open>Rounding\<close>

lemma round_even_of_int [simp]: "round_even (of_int n) = n"
  by (simp add: round_even_def)

lemma round_even_nonneg: "0 \<le> x \<Longrightarrow> 0 \<le> round_even x"
  by (auto simp: round_even_def Let_def)

lemma round_even_le: "x < of_int n \<Longrightarrow> round_even x \<le> n"
proof -
  assume "x < of_int n"
  then have "\<lfloor>x\<rfloor> < n" by (simp add: floor_less_iff)
  then show ?thesis by (auto simp: round_even_def Let_def)
qed

lemma two_powi_diff: "(2::rat) powi (int m - int n) = 2 ^ m / 2 ^ n"
  by (simp add: power_int_diff)

lemma ilog2_bounds:
  assumes "0 < a"
  shows "2 powi ilog2 a \<le> a" and "a < 2 powi (ilog2 a + 1)"
proof -
  obtain p q where pq: "quotient_of a = (p, q)" by (cases "quotient_of a")
  then have q: "0 < q" and a: "a = of_int p / of_int q"
    by (auto dest: quotient_of_denom_pos quotient_of_div)
  with assms have p: "0 < p" by (simp add: zero_less_divide_iff)
  define bp where "bp = floorlog 2 (nat p)"
  define bq where "bq = floorlog 2 (nat q)"
  define d where "d = int bp - int bq"
  have bp: "2 ^ (bp - 1) \<le> nat p" "nat p < 2 ^ bp"
    using floorlog_bounds [of "nat p" 2] p by (auto simp: bp_def)
  have bq: "2 ^ (bq - 1) \<le> nat q" "nat q < 2 ^ bq"
    using floorlog_bounds [of "nat q" 2] q by (auto simp: bq_def)
  have bp0: "0 < bp" using p by (simp add: bp_def floorlog_def)
  have bq0: "0 < bq" using q by (simp add: bq_def floorlog_def)
  have P1: "(2::rat) ^ (bp - 1) \<le> of_int p"
  proof -
    have "(of_nat (2 ^ (bp - 1)) :: rat) \<le> of_nat (nat p)" using bp(1) by (simp only: of_nat_le_iff)
    then show ?thesis using p by simp
  qed
  have P2: "of_int p < (2::rat) ^ bp"
  proof -
    have "(of_nat (nat p) :: rat) < of_nat (2 ^ bp)" using bp(2) by (simp only: of_nat_less_iff)
    then show ?thesis using p by simp
  qed
  have Q1: "(2::rat) ^ (bq - 1) \<le> of_int q"
  proof -
    have "(of_nat (2 ^ (bq - 1)) :: rat) \<le> of_nat (nat q)" using bq(1) by (simp only: of_nat_le_iff)
    then show ?thesis using q by simp
  qed
  have Q2: "of_int q < (2::rat) ^ bq"
  proof -
    have "(of_nat (nat q) :: rat) < of_nat (2 ^ bq)" using bq(2) by (simp only: of_nat_less_iff)
    then show ?thesis using q by simp
  qed
  have qpos: "(0::rat) < of_int q" using q by simp
  have low: "2 powi (d - 1) \<le> a"
  proof -
    have "d - 1 = int (bp - 1) - int bq" using bp0 by (simp add: d_def of_nat_diff Suc_le_eq)
    then have "(2::rat) powi (d - 1) = 2 ^ (bp - 1) / 2 ^ bq"
      by (simp only: two_powi_diff)
    also have "\<dots> \<le> of_int p / 2 ^ bq" using P1 by (simp add: divide_right_mono)
    also have "\<dots> \<le> of_int p / of_int q"
      using Q2 qpos p by (intro divide_left_mono) (auto intro: mult_pos_pos)
    finally show ?thesis by (simp add: a)
  qed
  have high: "a < 2 powi (d + 1)"
  proof -
    have "a = of_int p / of_int q" by (rule a)
    also have "\<dots> < 2 ^ bp / of_int q" using P2 qpos by (simp add: divide_strict_right_mono)
    also have "\<dots> \<le> 2 ^ bp / 2 ^ (bq - 1)"
      using Q1 qpos by (intro divide_left_mono) (auto intro: mult_pos_pos)
    also have "\<dots> = (2::rat) powi (d + 1)"
    proof -
      have "d + 1 = int bp - int (bq - 1)" using bq0 by (simp add: d_def of_nat_diff Suc_le_eq)
      then have "(2::rat) powi (d + 1) = 2 ^ bp / 2 ^ (bq - 1)"
        by (simp only: two_powi_diff)
      then show ?thesis by simp
    qed
    finally show ?thesis .
  qed
  have il: "ilog2 a = (if 2 powi d \<le> a then d else d - 1)"
    by (simp add: ilog2_def pq d_def bp_def bq_def Let_def)
  show "2 powi ilog2 a \<le> a" using low by (simp add: il)
  show "a < 2 powi (ilog2 a + 1)" using high by (auto simp: il not_le)
qed


lemma two_powi_less_cancel: "(2::rat) powi m < 2 powi n \<Longrightarrow> m < n"
proof (rule ccontr)
  assume lt: "(2::rat) powi m < 2 powi n" and "\<not> m < n"
  then have "n \<le> m" by simp
  then have "(2::rat) powi n \<le> 2 powi m" by (intro power_int_increasing) auto
  with lt show False by simp
qed

lemma ulp_exp_le:
  assumes "0 < m" and "m < 2 ^ 53" and "- 1074 \<le> k"
  shows "ulp_exp (of_int m * 2 powi k) \<le> k"
proof -
  let ?a = "of_int m * (2::rat) powi k"
  have pos: "0 < ?a" using assms(1) by (simp add: zero_less_mult_iff)
  have "(of_int m :: rat) < of_int (2 ^ 53)" using assms(2) by (simp only: of_int_less_iff)
  then have "(of_int m :: rat) < 2 ^ 53" by simp
  then have "?a < 2 ^ 53 * 2 powi k"
    by (intro mult_strict_right_mono) auto
  also have "\<dots> = 2 powi (53 + k)"
    by (simp add: power_int_add)
  finally have "?a < 2 powi (53 + k)" .
  with ilog2_bounds(1) [OF pos] have "(2::rat) powi ilog2 ?a < 2 powi (53 + k)"
    by (rule le_less_trans)
  then have "ilog2 ?a < 53 + k" by (rule two_powi_less_cancel)
  then show ?thesis using assms(3) by (simp add: ulp_exp_def)
qed

lemma round_pos_exact:
  assumes "0 < m" and "m < 2 ^ 53" and "- 1074 \<le> k"
  shows "round_pos (of_int m * 2 powi k) = of_int m * 2 powi k"
proof -
  let ?a = "of_int m * (2::rat) powi k"
  define u where "u = ulp_exp ?a"
  have u: "u \<le> k" unfolding u_def using assms by (rule ulp_exp_le)
  have split: "(2::rat) powi k = 2 powi u * 2 ^ nat (k - u)"
  proof -
    have "(2::rat) powi k = 2 powi (u + (k - u))" by simp
    also have "\<dots> = 2 powi u * 2 powi (k - u)" by (rule power_int_add) simp
    also have "2 powi (k - u) = (2::rat) ^ nat (k - u)"
      using u by (simp add: power_int_nonneg_exp)
    finally show ?thesis .
  qed
  have "?a / 2 powi u = of_int m * 2 ^ nat (k - u)"
    by (subst split) simp
  also have "\<dots> = of_int (m * 2 ^ nat (k - u))" by simp
  finally have "round_even (?a / 2 powi u) = m * 2 ^ nat (k - u)"
    by (simp only: round_even_of_int)
  then have "round_pos ?a = of_int (m * 2 ^ nat (k - u)) * 2 powi u"
    by (simp add: round_pos_def u_def)
  also have "\<dots> = of_int m * (2 powi u * 2 ^ nat (k - u))" by simp
  also have "\<dots> = ?a" by (simp only: split [symmetric])
  finally show ?thesis .
qed

lemma round_pos_form:
  assumes "0 < a"
  shows "\<exists>m k. round_pos a = of_int m * 2 powi k \<and> 0 \<le> m \<and> m \<le> 2 ^ 53 \<and> - 1074 \<le> k"
proof -
  define u where "u = ulp_exp a"
  define m where "m = round_even (a / 2 powi u)"
  have u: "ilog2 a - 52 \<le> u" "- 1074 \<le> u" by (simp_all add: u_def ulp_exp_def)
  have "0 \<le> a / 2 powi u" using assms by simp
  then have m0: "0 \<le> m" unfolding m_def by (rule round_even_nonneg)
  have "a < 2 powi (ilog2 a + 1)" using assms by (rule ilog2_bounds)
  also have "\<dots> \<le> 2 powi (53 + u)" using u(1) by (intro power_int_increasing) auto
  also have "\<dots> = 2 ^ 53 * 2 powi u" by (simp add: power_int_add)
  finally have "a / 2 powi u < 2 ^ 53" by (simp add: pos_divide_less_eq)
  then have "a / 2 powi u < of_int (2 ^ 53)" by simp
  then have "m \<le> 2 ^ 53" unfolding m_def by (rule round_even_le)
  moreover have "round_pos a = of_int m * 2 powi u" by (simp add: round_pos_def m_def u_def)
  ultimately show ?thesis using m0 u(2) by blast
qed

lemma round_pos_idem:
  assumes "0 < a"
  shows "round_pos (round_pos a) = round_pos a"
proof -
  from round_pos_form [OF assms] obtain m k
    where q: "round_pos a = of_int m * 2 powi k" and m: "0 \<le> m" "m \<le> 2 ^ 53" and k: "- 1074 \<le> k"
    by blast
  consider "m = 0" | "0 < m" "m < 2 ^ 53" | "m = 2 ^ 53" using m by fastforce
  then show ?thesis
  proof cases
    case 1
    then have "round_pos a = 0" using q by simp
    moreover have "round_pos 0 = 0" using round_even_of_int [of 0] by (simp add: round_pos_def)
    ultimately show ?thesis by simp
  next
    case 2
    then show ?thesis unfolding q using k by (rule round_pos_exact)
  next
    case 3
    have "(of_int m :: rat) * 2 powi k = of_int (2 ^ 52) * 2 powi (k + 1)"
      by (simp add: 3 power_int_add)
    moreover have "round_pos (of_int (2 ^ 52) * 2 powi (k + 1)) = of_int (2 ^ 52) * 2 powi (k + 1)"
      using k by (intro round_pos_exact) auto
    ultimately show ?thesis unfolding q by simp
  qed
qed

lemma round_pos_nonneg: "0 < a \<Longrightarrow> 0 \<le> round_pos a"
  using round_pos_form [of a] by auto


lemma round_double_idem:
  assumes "round_double r = Fin q"
  shows "round_double q = Fin q"
proof (cases "r = 0")
  case True
  with assms show ?thesis by (simp add: round_double_def)
next
  case False
  then have a: "0 < \<bar>r\<bar>" by simp
  define p where "p = round_pos \<bar>r\<bar>"
  have p0: "0 \<le> p" unfolding p_def using a by (rule round_pos_nonneg)
  have idem: "round_pos p = p" unfolding p_def using a by (rule round_pos_idem)
  from assms False have small: "\<not> 2 powi 1024 \<le> p" and q: "q = (if 0 < r then p else - p)"
    by (auto simp: round_double_def p_def split: if_splits)
  show ?thesis
  proof (cases "p = 0")
    case True
    then show ?thesis using q by (simp add: round_double_def)
  next
    case nz: False
    then have "0 < p" using p0 by simp
    then have "\<bar>q\<bar> = p" "q \<noteq> 0" "0 < q \<longleftrightarrow> 0 < r" using q by auto
    then show ?thesis using small idem q by (simp add: round_double_def)
  qed
qed

lemma is_double_round_double: "is_double (round_double r)"
proof (cases "round_double r")
  case (Fin q)
  then show ?thesis using round_double_idem [OF Fin] by simp
qed simp_all

lemma is_double_js_add: "is_double (js_add a b)"
  by (cases a; cases b) (simp_all add: is_double_round_double)

lemma js_add_zero: "is_double c \<Longrightarrow> js_add c (Fin 0) = c"
  by (cases c) simp_all

lemma is_double_zero: "is_double (Fin 0)"
  by (simp add: round_double_def)

lemma round_double_of_int:
  assumes "\<bar>n\<bar> < 2 ^ 53"
  shows "round_double (of_int n) = Fin (of_int n)"
proof (cases "n = 0")
  case True
  then show ?thesis by (simp add: round_double_def)
next
  case False
  have m: "0 < \<bar>n\<bar>" using False by simp
  have "round_pos (of_int \<bar>n\<bar> * 2 powi 0) = of_int \<bar>n\<bar> * 2 powi 0"
    using m assms by (intro round_pos_exact) auto
  then have rp: "round_pos \<bar>of_int n\<bar> = of_int \<bar>n\<bar>" by simp
  have "(of_int \<bar>n\<bar> :: rat) < of_int (2 ^ 53)" using assms by (simp only: of_int_less_iff)
  also have "\<dots> \<le> 2 powi 1024" by simp
  finally have "\<not> 2 powi 1024 \<le> (of_int \<bar>n\<bar> :: rat)" by simp
  then show ?thesis using False rp
    by (auto simp: round_double_def)
qed

lemma js_add_ints:
  "\<bar>a + b\<bar> < 2 ^ 53 \<Longrightarrow> js_add (Fin (of_int a)) (Fin (of_int b)) = Fin (of_int (a + b))"
  using round_double_of_int [of "a + b"] by simp

lemma ilog2_unique:
  assumes "0 < a" and "2 powi e \<le> a" and "a < 2 powi (e + 1)"
  shows "ilog2 a = e"
proof -
  have "(2::rat) powi e < 2 powi (ilog2 a + 1)"
    using assms(2) ilog2_bounds(2) [OF assms(1)] by (rule le_less_trans)
  then have "e < ilog2 a + 1" by (rule two_powi_less_cancel)
  moreover have "(2::rat) powi ilog2 a < 2 powi (e + 1)"
    using ilog2_bounds(1) [OF assms(1)] assms(3) by (rule le_less_trans)
  then have "ilog2 a < e + 1" by (rule two_powi_less_cancel)
  ultimately show ?thesis by simp
qed

text \<open>Two sums that are not exact: a tie that goes to the even neighbour, and an
  overflow.\<close>

lemma round_even_half: "round_even (of_int n + 1 / 2) = (if even n then n else n + 1)"
proof -
  have "\<lfloor>(of_int n :: rat) + 1 / 2\<rfloor> = n" by (simp add: floor_unique)
  then show ?thesis by (simp add: round_even_def)
qed

lemma js_add_rounds: "js_add (Fin (2 ^ 53)) (Fin 1) = Fin (2 ^ 53)"
proof -
  let ?a = "(2::rat) ^ 53 + 1"
  have "ilog2 ?a = 53" by (rule ilog2_unique) simp_all
  then have u: "ulp_exp ?a = 1" by (simp add: ulp_exp_def)
  have "?a / 2 powi 1 = of_int (2 ^ 52) + 1 / 2" by simp
  then have "round_even (?a / 2 powi 1) = 2 ^ 52"
    by (simp only: round_even_half) simp
  then have "round_pos ?a = 2 ^ 53" unfolding round_pos_def u by simp
  then show ?thesis by (simp add: round_double_def)
qed

lemma js_add_overflows: "js_add (Fin (2 ^ 1023)) (Fin (2 ^ 1023)) = PosInf"
proof -
  have "round_pos (of_int 1 * 2 powi 1024) = of_int 1 * 2 powi 1024"
    by (intro round_pos_exact) auto
  then have "round_pos (2 ^ 1024) = 2 ^ 1024" by simp
  moreover have "(2::rat) ^ 1023 + 2 ^ 1023 = 2 ^ 1024" by simp
  ultimately show ?thesis by (simp add: round_double_def)
qed

subsection \<open>Objects and the Map\<close>

lemma map_of_obj_set: "map_of (obj_set fs k v) k' = (if k' = k then Some v else map_of fs k')"
  by (induction fs) auto

lemma map_of_spread_absent:
  "k \<notin> fst ` set other \<Longrightarrow> map_of (spread base other) k = map_of base k"
  unfolding spread_def
proof (induction other arbitrary: base)
  case Nil
  then show ?case by simp
next
  case (Cons p other)
  obtain k' v' where p: "p = (k', v')" by (cases p)
  with Cons.prems have "k' \<noteq> k" "k \<notin> fst ` set other" by auto
  then show ?case using Cons.IH [of "obj_set base k' v'"] p
    by (simp add: map_of_obj_set)
qed

lemma same_value_zero_eq: "same_value_zero a b \<Longrightarrow> a = b"
  by (cases a) auto

lemma same_value_zero_JStr [simp]: "same_value_zero (JStr u) b = (b = JStr u)"
  by auto

lemma map_get_map_set_JStr: "map_get (map_set m (JStr u) v) (JStr u) = v"
  by (induction m) (auto dest: same_value_zero_eq)

lemma set_map_set: "e \<in> set (map_set m k v) \<Longrightarrow> e \<in> set m \<or> snd e = v"
  by (induction m) (auto split: if_splits)

lemma keys_map_set: "e \<in> set (map_set m k v) \<Longrightarrow> fst e \<in> fst ` set m \<or> fst e = k"
  by (induction m) (auto split: if_splits)

lemma map_inv_map_set: "map_inv m \<Longrightarrow> map_inv (map_set m k v)"
proof (induction m)
  case Nil
  then show ?case by simp
next
  case (Cons e m)
  obtain k' v' where e: "e = (k', v')" by (cases e)
  show ?case
  proof (cases "same_value_zero k' k")
    case True
    then show ?thesis using Cons.prems e by simp
  next
    case False
    have "list_all (\<lambda>e. \<not> same_value_zero k' (fst e)) (map_set m k v)"
      unfolding list_all_iff
    proof
      fix x assume "x \<in> set (map_set m k v)"
      then have "fst x \<in> fst ` set m \<or> fst x = k" by (rule keys_map_set)
      then show "\<not> same_value_zero k' (fst x)"
        using Cons.prems e False by (auto simp: list_all_iff)
    qed
    then show ?thesis using Cons e False by simp
  qed
qed


subsection \<open>Saving and loading\<close>

lemma map_set_fresh:
  "list_all (\<lambda>e. \<not> same_value_zero (fst e) k) m \<Longrightarrow> map_set m k v = m @ [(k, v)]"
  by (induction m) auto

lemma map_inv_append:
  "map_inv (a @ b) =
     (map_inv a \<and> map_inv b \<and> (\<forall>x \<in> set a. \<forall>y \<in> set b. \<not> same_value_zero (fst x) (fst y)))"
proof (induction a)
  case Nil
  then show ?case by simp
next
  case (Cons e a)
  obtain k v where e: "e = (k, v)" by (cases e)
  show ?case unfolding e using Cons.IH
    by (simp add: list_all_iff ball_Un) blast
qed

lemma forEach_set_entries:
  "map_inv (m @ st) \<Longrightarrow> forEach_set m (map (\<lambda>(k, v). JArr [k, v]) st) = (m @ st, None)"
proof (induction st arbitrary: m)
  case Nil
  then show ?case by simp
next
  case (Cons e st)
  obtain k v where e: "e = (k, v)" by (cases e)
  from Cons.prems e have fresh: "list_all (\<lambda>x. \<not> same_value_zero (fst x) k) m"
    by (auto simp: map_inv_append list_all_iff)
  from Cons.prems e have "map_inv ((m @ [(k, v)]) @ st)" by simp
  then have "forEach_set (m @ [(k, v)]) (map (\<lambda>(k, v). JArr [k, v]) st) = ((m @ [(k, v)]) @ st, None)"
    by (rule Cons.IH)
  then show ?case using e map_set_fresh [OF fresh] by simp
qed

lemma to_json_jsonable: "jsonable v \<Longrightarrow> to_json v = v"
proof (induction v)
  case (JArr xs)
  then show ?case by (auto simp: list_all_iff intro: map_idI)
next
  case (JObj fs)
  have "filter (\<lambda>(k, v). v \<noteq> JUndefined) fs = fs"
    using JObj.prems by (auto simp: list_all_iff filter_id_conv)
  moreover have "map (\<lambda>(k, v). (k, to_json v)) fs = fs"
    using JObj by (intro map_idI) (auto simp: list_all_iff)
  ultimately show ?case by simp
qed auto

lemma to_json_entries:
  "list_all (\<lambda>(k, u). jsonable k \<and> jsonable u) m \<Longrightarrow> to_json (entries m) = entries m"
  by (rule to_json_jsonable) (auto simp: entries_def list_all_iff)

lemma load_without_parse_keeps_map:
  "content (files s) = None \<or> content (files s) = Some Unparsable \<Longrightarrow>
   userData (loadUserData s) = userData s"
  by (auto simp: loadUserData_def fs_readFile_def)

lemma load_of_non_array_clears_map:
  "content (files s) = Some (Document v) \<Longrightarrow> \<forall>xs. v \<noteq> JArr xs \<Longrightarrow>
   userData (loadUserData s) = []"
  by (cases v) (simp_all add: loadUserData_def fs_readFile_def)

subsection \<open>Counting\<close>

lemma count_players_acc:
  assumes "\<forall>(k, u) \<in> set m.
     u \<noteq> JUndefined \<and> u \<noteq> JNull \<and> get_prop u ''playerCount'' \<noteq> Inr (JNum NaN)"
    and "is_double c" and "is_double t"
  shows "count_players (c, t) (map snd m) =
     Inr (foldl js_add c (numeric_playerCounts m), foldl js_add t (numeric_playerCounts m))"
  using assms
proof (induction m arbitrary: c t)
  case Nil
  then show ?case by (simp add: numeric_playerCounts_def)
next
  case (Cons e m)
  obtain k u where e: "e = (k, u)" by (cases e)
  from Cons.prems e have u: "u \<noteq> JUndefined" "u \<noteq> JNull"
    "get_prop u ''playerCount'' \<noteq> Inr (JNum NaN)"
    by auto
  from Cons.prems have rest: "\<forall>(k, u) \<in> set m.
     u \<noteq> JUndefined \<and> u \<noteq> JNull \<and> get_prop u ''playerCount'' \<noteq> Inr (JNum NaN)"
    by auto
  note dbl = Cons.prems(2,3)
  from u obtain pc where pc: "get_prop u ''playerCount'' = Inr pc"
    by (cases u) auto
  have split: "numeric_playerCounts (e # m) =
      (case pc of JNum n \<Rightarrow> [n] | _ \<Rightarrow> []) @ numeric_playerCounts m"
    using e pc by (simp add: numeric_playerCounts_def)
  have skip: "count_players (c, t) (map snd m) =
     Inr (foldl js_add c (numeric_playerCounts m), foldl js_add t (numeric_playerCounts m))"
    using rest dbl by (rule Cons.IH)
  have add: "count_players (js_add c n, js_add t n) (map snd m) =
     Inr (foldl js_add (js_add c n) (numeric_playerCounts m),
          foldl js_add (js_add t n) (numeric_playerCounts m))" for n
    using rest by (rule Cons.IH) (rule is_double_js_add)+
  show ?case
  proof (cases pc)
    case (JNum n)
    with u pc have nan: "n \<noteq> NaN" by auto
    show ?thesis
    proof (cases "truthy (JNum n)")
      case True
      then show ?thesis using add [of n] e pc JNum split by simp
    next
      case False
      with nan have "n = Fin 0" by (cases n) auto
      then show ?thesis using skip e pc JNum split dbl by (simp add: js_add_zero)
    qed
  qed (use skip e pc split in auto)
qed

subsection \<open>The submission handler\<close>

lemma get_prop_playerCount_defined:
  "get_prop body ''userId'' = Inr u \<Longrightarrow> \<exists>pc. get_prop body ''playerCount'' = Inr pc"
  by (cases body) auto

lemma post_userlist_accepted:
  assumes "get_prop body ''userId'' = Inr (JStr uid)" and "uid \<noteq> []"
    and "get_prop body ''playerCount'' = Inr pc"
  shows "post_userlist now s body =
     (saveUserData (s\<lparr>userData := map_set (userData s) (JStr uid)
        (new_record pc now
          (filter (\<lambda>(k, v). k \<noteq> ''userId'' \<and> k \<noteq> ''playerCount'') (own_props body)))\<rparr>),
      data_saved)"
  using assms by (simp add: post_userlist_def destructure_body_def)

lemma post_userlist_rejected:
  assumes "get_prop body ''userId'' = Inr userId" and "\<not> truthy userId \<or> typeof userId \<noteq> TString"
  shows "post_userlist now s body = (s, invalid_userId)"
proof -
  from assms(1) obtain pc where "get_prop body ''playerCount'' = Inr pc"
    using get_prop_playerCount_defined by blast
  with assms show ?thesis
    by (auto simp: post_userlist_def destructure_body_def)
qed

lemma userData_saveUserData: "userData (saveUserData s) = userData s"
  by (simp add: saveUserData_def fs_writeFile_def split: write_result.split)

lemma res_json_fixed:
  "res_json 400 (JObj [(''error'', JStr ''Missing or invalid userId'')]) = invalid_userId"
  "res_json 200 (JObj [(''success'', JBool True), (''message'', JStr ''Data saved successfully'')]) =
     data_saved"
  "res_json 500 (JObj [(''error'', JStr ''Failed to save data'')]) = failed_to_save"
  by (simp_all add: res_json_def)

lemma new_record_playerCount:
  assumes "''playerCount'' \<notin> fst ` set other"
  shows "get_prop (new_record pc now other) ''playerCount'' =
     Inr (if typeof pc = TNumber then pc else JNum (Fin 0))"
  using assms by (simp add: new_record_def map_of_spread_absent)

lemma new_record_lastUpdated:
  assumes "''lastUpdated'' \<notin> fst ` set other"
  shows "get_prop (new_record pc now other) ''lastUpdated'' = Inr (JNum (Fin (of_int now)))"
  using assms by (simp add: new_record_def map_of_spread_absent)

lemma otherData_has_no_playerCount:
  "''playerCount'' \<notin> fst ` set (filter (\<lambda>(k, v). k \<noteq> ''userId'' \<and> k \<noteq> ''playerCount'') fs)"
  by auto

lemma post_userlist_keeps_map_inv:
  "map_inv (userData s) \<Longrightarrow> map_inv (userData (fst (post_userlist now s body)))"
  by (auto simp: post_userlist_def userData_saveUserData map_inv_map_set
      split: sum.splits prod.splits)

lemma failed_to_save_iff:
  "(snd (post_userlist now s body) = failed_to_save) = (body = JUndefined \<or> body = JNull)"
  by (cases body) (auto simp: post_userlist_def destructure_body_def)

lemma post_userlist_keeps_countable:
  assumes "\<forall>(k, u) \<in> set (userData s).
      u \<noteq> JUndefined \<and> u \<noteq> JNull \<and> get_prop u ''playerCount'' \<noteq> Inr (JNum NaN)"
    and "get_prop body ''playerCount'' \<noteq> Inr (JNum NaN)"
  shows "\<forall>(k, u) \<in> set (userData (fst (post_userlist now s body))).
      u \<noteq> JUndefined \<and> u \<noteq> JNull \<and> get_prop u ''playerCount'' \<noteq> Inr (JNum NaN)"
proof (cases "destructure_body body")
  case (Inl e)
  then show ?thesis using assms(1) by (simp add: post_userlist_def)
next
  case (Inr t)
  obtain userId pc other where t: "t = (userId, pc, other)" by (cases t)
  from Inr t have pc: "get_prop body ''playerCount'' = Inr pc"
    and other: "other = filter (\<lambda>(k, v). k \<noteq> ''userId'' \<and> k \<noteq> ''playerCount'') (own_props body)"
    by (auto simp: destructure_body_def split: sum.splits)
  have rec: "get_prop (new_record pc now other) ''playerCount'' =
      Inr (if typeof pc = TNumber then pc else JNum (Fin 0))"
    unfolding other by (rule new_record_playerCount) auto
  have ok: "new_record pc now other \<noteq> JUndefined \<and> new_record pc now other \<noteq> JNull \<and>
      get_prop (new_record pc now other) ''playerCount'' \<noteq> Inr (JNum NaN)"
    using rec pc assms(2) by (auto simp: new_record_def)
  show ?thesis
  proof (cases "\<not> truthy userId \<or> typeof userId \<noteq> TString")
    case True
    then show ?thesis using Inr t assms(1) by (auto simp: post_userlist_def)
  next
    case False
    then have "userData (fst (post_userlist now s body)) =
        map_set (userData s) userId (new_record pc now other)"
      using Inr t by (auto simp: post_userlist_def userData_saveUserData)
    then show ?thesis using assms(1) ok
      by (auto dest!: set_map_set)
  qed
qed

lemma keys_obj_set: "set (map fst (obj_set fs k v)) = insert k (set (map fst fs))"
proof (induction fs)
  case Nil
  then show ?case by simp
next
  case (Cons p fs)
  obtain k' v' where p: "p = (k', v')" by (cases p)
  show ?case
  proof (cases "k' = k")
    case True
    then show ?thesis using p by simp
  next
    case False
    then show ?thesis using p Cons.IH by (simp add: insert_commute)
  qed
qed

lemma distinct_obj_set: "distinct (map fst fs) \<Longrightarrow> distinct (map fst (obj_set fs k v))"
proof (induction fs)
  case Nil
  then show ?case by simp
next
  case (Cons p fs)
  obtain k' v' where p: "p = (k', v')" by (cases p)
  show ?case
  proof (cases "k' = k")
    case True
    then show ?thesis using Cons.prems p by simp
  next
    case False
    then show ?thesis using Cons p keys_obj_set [of fs k v] by simp
  qed
qed

lemma distinct_spread: "distinct (map fst base) \<Longrightarrow> distinct (map fst (spread base other))"
  unfolding spread_def
  by (induction other arbitrary: base) (auto simp: distinct_obj_set)

lemma entry_of_map_set: "e \<in> set (map_set m k v) \<Longrightarrow> e \<in> set m \<or> e = (k, v)"
  by (induction m) (auto split: if_splits dest: same_value_zero_eq)

lemma post_userlist_keeps_user_records:
  assumes "\<forall>(k, u) \<in> set (userData s).
      (\<exists>uid. k = JStr uid) \<and> (\<exists>fs. u = JObj fs \<and> distinct (map fst fs))"
  shows "\<forall>(k, u) \<in> set (userData (fst (post_userlist now s body))).
      (\<exists>uid. k = JStr uid) \<and> (\<exists>fs. u = JObj fs \<and> distinct (map fst fs))"
proof (cases "destructure_body body")
  case (Inl e)
  then show ?thesis using assms by (simp add: post_userlist_def)
next
  case (Inr t)
  obtain userId pc other where t: "t = (userId, pc, other)" by (cases t)
  have rec: "\<exists>fs. new_record pc now other = JObj fs \<and> distinct (map fst fs)"
    by (simp add: new_record_def distinct_spread)
  show ?thesis
  proof (cases "\<not> truthy userId \<or> typeof userId \<noteq> TString")
    case True
    then show ?thesis using Inr t assms by (auto simp: post_userlist_def)
  next
    case False
    then obtain uid where uid: "userId = JStr uid" by (cases userId) auto
    from False have "userData (fst (post_userlist now s body)) =
        map_set (userData s) userId (new_record pc now other)"
      using Inr t by (auto simp: post_userlist_def userData_saveUserData)
    then show ?thesis using assms rec uid
      by (auto dest!: entry_of_map_set)
  qed
qed

subsection \<open>Restarting on the saved file\<close>

lemma restart_restores_map:
  assumes "map_inv (userData s)"
    and "list_all (\<lambda>(k, u). jsonable k \<and> jsonable u) (userData s)"
    and "writable (files s)"
  shows "userData (init (files (saveUserData s))) = userData s"
proof -
  have "forEach_set [] (map (\<lambda>(k, v). JArr [k, v]) (userData s)) = ([] @ userData s, None)"
    using assms(1) by (intro forEach_set_entries) simp
  then show ?thesis
    using assms(3) to_json_entries [OF assms(2)]
    by (simp add: init_def boot_def loadUserData_def fs_readFile_def saveUserData_def
        fs_writeFile_def JSON_stringify_def) (simp add: entries_def)
qed

lemma map_of_to_json_fields:
  "distinct (map fst fs) \<Longrightarrow>
   map_of (map (\<lambda>(k, v). (k, to_json v)) (filter (\<lambda>(k, v). v \<noteq> JUndefined) fs)) name =
     (case map_of fs name of
        None \<Rightarrow> None
      | Some v \<Rightarrow> if v = JUndefined then None else Some (to_json v))"
proof (induction fs)
  case Nil
  then show ?case by simp
next
  case (Cons p fs)
  obtain k v where p: "p = (k, v)" by (cases p)
  from Cons.prems p have "k \<notin> fst ` set fs" and d: "distinct (map fst fs)" by auto
  then have "map_of fs k = None" by (simp add: map_of_eq_None_iff)
  then show ?case using Cons.IH [OF d] p by auto
qed

lemma count_players_to_json:
  assumes "\<forall>u \<in> set us. (\<exists>fs. u = JObj fs \<and> distinct (map fst fs)) \<and>
      get_prop u ''playerCount'' \<noteq> Inr (JNum PosInf) \<and>
      get_prop u ''playerCount'' \<noteq> Inr (JNum NegInf)"
  shows "count_players (c, t) (map to_json us) = count_players (c, t) us"
  using assms
proof (induction us arbitrary: c t)
  case Nil
  then show ?case by simp
next
  case (Cons u us)
  from Cons.prems obtain fs where u: "u = JObj fs" and d: "distinct (map fst fs)"
    by auto
  from Cons.prems u have "get_prop (JObj fs) ''playerCount'' \<noteq> Inr (JNum PosInf)"
    and "get_prop (JObj fs) ''playerCount'' \<noteq> Inr (JNum NegInf)"
    by auto
  then have inf: "map_of fs ''playerCount'' \<noteq> Some (JNum PosInf)"
      "map_of fs ''playerCount'' \<noteq> Some (JNum NegInf)"
    by auto
  have IH: "\<And>c t. count_players (c, t) (map to_json us) = count_players (c, t) us"
    using Cons by simp
  show ?case
  proof (cases "map_of fs ''playerCount''")
    case None
    then show ?thesis using u IH by (simp add: map_of_to_json_fields [OF d])
  next
    case (Some v)
    show ?thesis
    proof (cases v)
      case (JNum n)
      then show ?thesis using u IH Some inf
        by (cases n) (simp_all add: map_of_to_json_fields [OF d])
    qed (use u IH Some in \<open>simp_all add: map_of_to_json_fields [OF d]\<close>)
  qed
qed

lemma map_inv_map_values: "map_inv (map (\<lambda>(k, u). (k, f u)) m) = map_inv m"
proof (induction m)
  case Nil
  then show ?case by simp
next
  case (Cons e m)
  obtain k u where e: "e = (k, u)" by (cases e)
  have "list_all (\<lambda>e. \<not> same_value_zero k (fst e)) (map (\<lambda>(k, u). (k, f u)) m) =
      list_all (\<lambda>e. \<not> same_value_zero k (fst e)) m"
    by (simp add: list_all_iff case_prod_unfold)
  then show ?case using Cons.IH e by simp
qed

lemma to_json_entries_string_keys:
  assumes "\<forall>(k, u) \<in> set m. \<exists>uid. k = JStr uid"
  shows "to_json (entries m) = entries (map (\<lambda>(k, u). (k, to_json u)) m)"
  using assms by (auto simp: entries_def)

lemma restart_serialises_records:
  assumes "map_inv (userData s)" and "\<forall>(k, u) \<in> set (userData s). \<exists>uid. k = JStr uid"
    and "writable (files s)"
  shows "userData (init (files (saveUserData s))) = map (\<lambda>(k, u). (k, to_json u)) (userData s)"
proof -
  let ?m = "map (\<lambda>(k, u). (k, to_json u)) (userData s)"
  have "map_inv ([] @ ?m)" using assms(1) by (simp add: map_inv_map_values)
  then have "forEach_set [] (map (\<lambda>(k, v). JArr [k, v]) ?m) = ([] @ ?m, None)"
    by (rule forEach_set_entries)
  then have "forEach_set [] (map (\<lambda>(k, v). JArr [k, v]) ?m) = (?m, None)" by simp
  moreover have "content (files (saveUserData s)) = Some (Document (entries ?m))"
    using assms(3) to_json_entries_string_keys [OF assms(2)]
    by (simp add: saveUserData_def fs_writeFile_def JSON_stringify_def)
  ultimately show ?thesis
    by (simp add: init_def boot_def loadUserData_def fs_readFile_def entries_def)
qed

section \<open>The claims\<close>

subsection \<open>C1: who sets \<open>lastUpdated\<close>\<close>

text \<open>
  C1 says that the stored \<open>lastUpdated\<close> is the server's clock reading even when the
  client sends a \<open>lastUpdated\<close> of its own. The handler takes \<open>userId\<close> and
  \<open>playerCount\<close> out of the body, but \<open>lastUpdated\<close> stays among the extra fields, and
  these are spread into the record after the clock reading was written. At clock
  reading 1000, the body \<^verbatim>\<open>{"userId":"a","playerCount":3,"lastUpdated":5}\<close> is
  accepted and stored with \<open>lastUpdated\<close> 5.
\<close>

theorem client_lastUpdated_replaces_clock:
  "post_userlist 1000 (boot \<lparr>content = None, on_write = Written\<rparr>)
     (JObj [(''userId'', JStr ''a''), (''playerCount'', JNum (Fin 3)),
            (''lastUpdated'', JNum (Fin 5))]) =
   (\<lparr>userData =
        [(JStr ''a'', JObj [(''playerCount'', JNum (Fin 3)), (''lastUpdated'', JNum (Fin 5))])],
     files = \<lparr>content = Some (Document (JArr [JArr [JStr ''a'',
        JObj [(''playerCount'', JNum (Fin 3)), (''lastUpdated'', JNum (Fin 5))]]])),
        on_write = Written\<rparr>,
     console = []\<rparr>,
    data_saved)"
  by (simp add: post_userlist_def destructure_body_def boot_def new_record_def spread_def
      saveUserData_def fs_writeFile_def JSON_stringify_def entries_def)

theorem client_lastUpdated_replaces_clock_witness:
  "get_prop
     (map_get
       (userData (fst (post_userlist 1000 (boot \<lparr>content = None, on_write = Written\<rparr>)
          (JObj [(''userId'', JStr ''a''), (''playerCount'', JNum (Fin 3)),
                 (''lastUpdated'', JNum (Fin 5))]))))
       (JStr ''a''))
     ''lastUpdated'' = Inr (JNum (Fin 5))"
  using client_lastUpdated_replaces_clock by simp

text \<open>
  A body without a \<open>lastUpdated\<close> field is stored with the clock reading.
\<close>

lemma lastUpdated_is_clock_without_client_field:
  assumes "get_prop body ''userId'' = Inr (JStr uid)" and "uid \<noteq> []"
    and "''lastUpdated'' \<notin> fst ` set (own_props body)"
  shows "get_prop (map_get (userData (fst (post_userlist now s body))) (JStr uid)) ''lastUpdated'' =
     Inr (JNum (Fin (of_int now)))"
proof -
  from assms(1) obtain pc where pc: "get_prop body ''playerCount'' = Inr pc"
    using get_prop_playerCount_defined by blast
  have "''lastUpdated'' \<notin> fst ` set
      (filter (\<lambda>(k, v). k \<noteq> ''userId'' \<and> k \<noteq> ''playerCount'') (own_props body))"
    using assms(3) by auto
  then show ?thesis
    by (simp add: post_userlist_accepted [OF assms(1,2) pc] userData_saveUserData
        map_get_map_set_JStr new_record_lastUpdated)
qed

subsection \<open>C2: a failed write in the submission path\<close>

text \<open>
  A failed write never reaches the handler: \<^verbatim>\<open>saveUserData\<close> catches it, so an
  accepted submission is acknowledged and the error is only on the console, however
  the write failed.
\<close>

lemma failed_write_is_logged_not_reported:
  assumes "get_prop body ''userId'' = Inr (JStr uid)" and "uid \<noteq> []"
    and "\<not> writable (files s)"
  shows "snd (post_userlist now s body) = data_saved
    \<and> console (fst (post_userlist now s body)) = console s @ [ErrorSavingUserData IOError]"
proof -
  from assms(1) obtain pc where pc: "get_prop body ''playerCount'' = Inr pc"
    using get_prop_playerCount_defined by blast
  show ?thesis
    using assms(3)
    by (cases "on_write (files s)")
      (simp_all add: post_userlist_accepted [OF assms(1,2) pc] saveUserData_def fs_writeFile_def)
qed

text \<open>
  C2 says that in the submission path a failed file write is answered with a 500.
  The handler has the \<^verbatim>\<open>catch\<close> for it, which logs \<^verbatim>\<open>Error saving user data\<close> and
  answers 500 \<^verbatim>\<open>Failed to save data\<close>, but \<^verbatim>\<open>saveUserData\<close> catches the error
  of the write itself and throws nothing. At clock reading 1000 the submission
  \<^verbatim>\<open>{"userId":"a","playerCount":3}\<close> is answered with \<^verbatim>\<open>Data saved successfully\<close>
  both on a disk that refuses to open the file and on a disk where the write fails
  after the open; the error is on the console, and in the second case the file is
  left without valid content.
\<close>

theorem failed_write_is_acknowledged:
  "post_userlist 1000 (boot \<lparr>content = None, on_write = RefusedAtOpen\<rparr>)
     (JObj [(''userId'', JStr ''a''), (''playerCount'', JNum (Fin 3))]) =
   (\<lparr>userData =
        [(JStr ''a'', JObj [(''playerCount'', JNum (Fin 3)), (''lastUpdated'', JNum (Fin 1000))])],
     files = \<lparr>content = None, on_write = RefusedAtOpen\<rparr>,
     console = [ErrorSavingUserData IOError]\<rparr>,
    data_saved)
   \<and> post_userlist 1000 (boot \<lparr>content = None, on_write = FailedAfterOpen\<rparr>)
     (JObj [(''userId'', JStr ''a''), (''playerCount'', JNum (Fin 3))]) =
   (\<lparr>userData =
        [(JStr ''a'', JObj [(''playerCount'', JNum (Fin 3)), (''lastUpdated'', JNum (Fin 1000))])],
     files = \<lparr>content = Some Unparsable, on_write = FailedAfterOpen\<rparr>,
     console = [ErrorSavingUserData IOError]\<rparr>,
    data_saved)"
  by (simp add: post_userlist_def destructure_body_def boot_def new_record_def spread_def
      saveUserData_def fs_writeFile_def)

theorem failed_write_is_acknowledged_witness:
  "snd (post_userlist 1000 (boot \<lparr>content = None, on_write = RefusedAtOpen\<rparr>)
     (JObj [(''userId'', JStr ''a''), (''playerCount'', JNum (Fin 3))])) = data_saved
   \<and> snd (post_userlist 1000 (boot \<lparr>content = None, on_write = FailedAfterOpen\<rparr>)
     (JObj [(''userId'', JStr ''a''), (''playerCount'', JNum (Fin 3))])) = data_saved"
  using failed_write_is_acknowledged by simp

subsection \<open>C3: the aggregate\<close>

text \<open>
  C3 as stated, for every store state, fails: a file that holds \<^verbatim>\<open>[["a",null]]\<close> is
  loaded at start-up into a store whose record for \<open>a\<close> is \<^verbatim>\<open>null\<close>, and on that store
  the handler of \<^verbatim>\<open>GET /player-count\<close> throws when it reads \<^verbatim>\<open>user.playerCount\<close>:
  no aggregate is returned.
\<close>

theorem unreadable_record_breaks_player_count:
  "userData (init \<lparr>content = Some (Document (JArr [JArr [JStr ''a'', JNull]])),
       on_write = Written\<rparr>) = [(JStr ''a'', JNull)]
   \<and> get_player_count (init \<lparr>content = Some (Document (JArr [JArr [JStr ''a'', JNull]])),
       on_write = Written\<rparr>) = Uncaught TypeError"
  by (simp add: init_def boot_def loadUserData_def fs_readFile_def get_player_count_def
      counts_def)

text \<open>
  C3 as amended: for every store state in which every record can be read (none is
  \<^verbatim>\<open>undefined\<close> or \<^verbatim>\<open>null\<close>) and no \<open>playerCount\<close> is NaN, \<^verbatim>\<open>GET /player-count\<close> answers
  200 with, as both \<open>current\<close> and \<open>total\<close>, the sum of \<open>playerCount\<close> over the records
  whose \<open>playerCount\<close> is a number; the sum is the one the language computes (from 0,
  in insertion order, every partial sum rounded to a double), and it is sent as
  JSON, so a sum that is infinite or NaN reaches the client as \<^verbatim>\<open>null\<close>. In
  particular, after the submissions \<^verbatim>\<open>{a:3}\<close> and \<^verbatim>\<open>{b:5}\<close> to a fresh server the
  answer is \<^verbatim>\<open>{current:8,total:8}\<close>, whatever the clock and the disk.

  Every store that submissions build meets the two conditions
  (\<open>post_userlist_keeps_countable\<close>: a record is an object made by the handler, and
  a JSON body has no NaN). The handler skips a falsy \<open>playerCount\<close>; the only falsy
  number but NaN is zero, and adding zero to a double does not change it.
\<close>

theorem player_count_is_sum:
  assumes "\<forall>(k, u) \<in> set (userData s).
      u \<noteq> JUndefined \<and> u \<noteq> JNull \<and> get_prop u ''playerCount'' \<noteq> Inr (JNum NaN)"
  shows "get_player_count s =
      Response 200 (JObj [(''current'', to_json (JNum (spec_aggregate (userData s)))),
                          (''total'', to_json (JNum (spec_aggregate (userData s))))])
    \<and> get_player_count
        (fst (post_userlist t2
          (fst (post_userlist t1 (boot d)
            (JObj [(''userId'', JStr ''a''), (''playerCount'', JNum (Fin 3))])))
          (JObj [(''userId'', JStr ''b''), (''playerCount'', JNum (Fin 5))]))) =
      Response 200 (JObj [(''current'', JNum (Fin 8)), (''total'', JNum (Fin 8))])"
proof
  have "counts (userData s) = Inr (spec_aggregate (userData s), spec_aggregate (userData s))"
    unfolding counts_def spec_aggregate_def
    using assms is_double_zero is_double_zero by (rule count_players_acc)
  then show "get_player_count s =
      Response 200 (JObj [(''current'', to_json (JNum (spec_aggregate (userData s)))),
                          (''total'', to_json (JNum (spec_aggregate (userData s))))])"
    by (simp add: get_player_count_def res_json_def)
next
  have a: "get_prop (JObj [(''userId'', JStr ''a''), (''playerCount'', JNum (Fin 3))]) ''userId'' =
      Inr (JStr ''a'')" by simp
  have b: "get_prop (JObj [(''userId'', JStr ''b''), (''playerCount'', JNum (Fin 5))]) ''userId'' =
      Inr (JStr ''b'')" by simp
  have pa: "get_prop (JObj [(''userId'', JStr ''a''), (''playerCount'', JNum (Fin 3))]) ''playerCount'' =
      Inr (JNum (Fin 3))" by simp
  have pb: "get_prop (JObj [(''userId'', JStr ''b''), (''playerCount'', JNum (Fin 5))]) ''playerCount'' =
      Inr (JNum (Fin 5))" by simp
  have s3: "round_double 3 = Fin 3" using round_double_of_int [of 3] by simp
  have s8: "round_double 8 = Fin 8" using round_double_of_int [of 8] by simp
  show "get_player_count
        (fst (post_userlist t2
          (fst (post_userlist t1 (boot d)
            (JObj [(''userId'', JStr ''a''), (''playerCount'', JNum (Fin 3))])))
          (JObj [(''userId'', JStr ''b''), (''playerCount'', JNum (Fin 5))]))) =
      Response 200 (JObj [(''current'', JNum (Fin 8)), (''total'', JNum (Fin 8))])"
    by (simp add: post_userlist_accepted [OF a _ pa] post_userlist_accepted [OF b _ pb]
        userData_saveUserData boot_def new_record_def spread_def
        get_player_count_def counts_def res_json_def s3 s8)
qed

theorem player_count_is_sum_witness:
  "spec_aggregate
     [(JStr ''a'', JObj [(''playerCount'', JNum (Fin 3)), (''lastUpdated'', JNum (Fin 10))]),
      (JStr ''b'', JObj [(''playerCount'', JNum (Fin 5)), (''lastUpdated'', JNum (Fin 20))]),
      (JStr ''c'', JObj [(''playerCount'', JStr ''many''), (''lastUpdated'', JNum (Fin 30))])] = Fin 8
   \<and> get_player_count
     \<lparr>userData =
        [(JStr ''a'', JObj [(''playerCount'', JNum (Fin 3)), (''lastUpdated'', JNum (Fin 10))]),
         (JStr ''b'', JObj [(''playerCount'', JNum (Fin 5)), (''lastUpdated'', JNum (Fin 20))]),
         (JStr ''c'', JObj [(''playerCount'', JStr ''many''), (''lastUpdated'', JNum (Fin 30))])],
      files = \<lparr>content = None, on_write = Written\<rparr>, console = []\<rparr> =
     Response 200 (JObj [(''current'', JNum (Fin 8)), (''total'', JNum (Fin 8))])"
proof -
  let ?s = "\<lparr>userData =
        [(JStr ''a'', JObj [(''playerCount'', JNum (Fin 3)), (''lastUpdated'', JNum (Fin 10))]),
         (JStr ''b'', JObj [(''playerCount'', JNum (Fin 5)), (''lastUpdated'', JNum (Fin 20))]),
         (JStr ''c'', JObj [(''playerCount'', JStr ''many''), (''lastUpdated'', JNum (Fin 30))])],
      files = \<lparr>content = None, on_write = Written\<rparr>, console = []\<rparr>"
  have h: "\<forall>(k, u) \<in> set (userData ?s).
      u \<noteq> JUndefined \<and> u \<noteq> JNull \<and> get_prop u ''playerCount'' \<noteq> Inr (JNum NaN)"
    by simp
  have s3: "round_double 3 = Fin 3" using round_double_of_int [of 3] by simp
  have s8: "round_double 8 = Fin 8" using round_double_of_int [of 8] by simp
  have agg: "spec_aggregate (userData ?s) = Fin 8"
    by (simp add: spec_aggregate_def numeric_playerCounts_def s3 s8)
  show ?thesis
    using player_count_is_sum [OF h] agg by simp
qed

subsection \<open>C4: a second submission replaces the first\<close>



subsection \<open>C5: a missing or non-string \<open>userId\<close>\<close>

text \<open>
  C5: a body whose \<open>userId\<close> is missing (it reads as \<^verbatim>\<open>undefined\<close>) or is not a
  string is answered with the 400 error, and the server is left exactly as it was:
  the map, the file and the console are unchanged, so nothing was set and nothing
  was saved.
\<close>

theorem invalid_userId_is_rejected:
  assumes "get_prop body ''userId'' = Inr userId" and "typeof userId \<noteq> TString"
  shows "post_userlist now s body = (s, invalid_userId)"
  using assms by (simp add: post_userlist_rejected)

theorem invalid_userId_is_rejected_witness:
  "post_userlist 10 (boot \<lparr>content = None, on_write = Written\<rparr>)
     (JObj [(''playerCount'', JNum (Fin 3))]) =
     (boot \<lparr>content = None, on_write = Written\<rparr>, invalid_userId)
   \<and> post_userlist 10 (boot \<lparr>content = None, on_write = Written\<rparr>)
     (JObj [(''userId'', JNum (Fin 42)), (''playerCount'', JNum (Fin 3))]) =
     (boot \<lparr>content = None, on_write = Written\<rparr>, invalid_userId)"
proof -
  have m: "get_prop (JObj [(''playerCount'', JNum (Fin 3))]) ''userId'' = Inr JUndefined"
    by simp
  have n: "get_prop (JObj [(''userId'', JNum (Fin 42)), (''playerCount'', JNum (Fin 3))]) ''userId'' =
      Inr (JNum (Fin 42))"
    by simp
  have tm: "typeof JUndefined \<noteq> TString" by simp
  have tn: "typeof (JNum (Fin 42)) \<noteq> TString" by simp
  show ?thesis
    using invalid_userId_is_rejected [OF m tm] invalid_userId_is_rejected [OF n tn]
    by simp
qed

subsection \<open>C6: the stored \<open>playerCount\<close>\<close>

text \<open>
  C6 as stated, that the stored \<open>playerCount\<close> is a non-negative integer, fails: the
  handler checks only that the value is a number, so the submission
  \<^verbatim>\<open>{"userId":"a","playerCount":-2.5}\<close> is accepted and stored with \<open>playerCount\<close>
  \<open>-5/2\<close>, which is negative and no integer.
\<close>

theorem negative_playerCount_is_stored:
  "post_userlist 1000 (boot \<lparr>content = None, on_write = Written\<rparr>)
     (JObj [(''userId'', JStr ''a''), (''playerCount'', JNum (Fin (- (5 / 2))))]) =
   (\<lparr>userData =
        [(JStr ''a'',
          JObj [(''playerCount'', JNum (Fin (- (5 / 2)))), (''lastUpdated'', JNum (Fin 1000))])],
     files = \<lparr>content = Some (Document (JArr [JArr [JStr ''a'',
        JObj [(''playerCount'', JNum (Fin (- (5 / 2)))), (''lastUpdated'', JNum (Fin 1000))]]])),
        on_write = Written\<rparr>,
     console = []\<rparr>,
    data_saved)
   \<and> (- (5 / 2) :: rat) < 0 \<and> (- (5 / 2) :: rat) \<notin> \<int>"
proof -
  have "(- (5 / 2) :: rat) \<notin> \<int>"
  proof
    assume "(- (5 / 2) :: rat) \<in> \<int>"
    then obtain z :: int where z: "(- (5 / 2) :: rat) = of_int z" by (auto elim: Ints_cases)
    then have "of_int (2 * z) = (of_int (- 5) :: rat)" by simp
    then have "2 * z = - 5" by (simp only: of_int_eq_iff)
    then show False by presburger
  qed
  then show ?thesis
    by (simp add: post_userlist_def destructure_body_def boot_def new_record_def spread_def
      saveUserData_def fs_writeFile_def JSON_stringify_def entries_def)
qed

text \<open>
  C6 as amended: for every accepted submission the stored \<open>playerCount\<close> is the
  submitted value when that is a number, whatever its sign and whether or not it is
  whole, and 0 when the field is absent or not a number.
\<close>

theorem stored_playerCount_is_number_or_zero:
  assumes "get_prop body ''userId'' = Inr (JStr uid)" and "uid \<noteq> []"
    and "get_prop body ''playerCount'' = Inr playerCount"
  shows "get_prop (map_get (userData (fst (post_userlist now s body))) (JStr uid)) ''playerCount'' =
     Inr (if typeof playerCount = TNumber then playerCount else JNum (Fin 0))"
proof -
  have "map_get (userData (fst (post_userlist now s body))) (JStr uid) =
      new_record playerCount now
        (filter (\<lambda>(k, v). k \<noteq> ''userId'' \<and> k \<noteq> ''playerCount'') (own_props body))"
    by (simp add: post_userlist_accepted [OF assms] userData_saveUserData map_get_map_set_JStr)
  then show ?thesis
    by (simp only: new_record_playerCount [OF otherData_has_no_playerCount])
qed

theorem stored_playerCount_is_number_or_zero_witness:
  "get_prop (map_get (userData (fst (post_userlist 10 (boot \<lparr>content = None, on_write = Written\<rparr>)
       (JObj [(''userId'', JStr ''a''), (''playerCount'', JStr ''many'')])))) (JStr ''a''))
     ''playerCount'' = Inr (JNum (Fin 0))
   \<and> get_prop (map_get (userData (fst (post_userlist 10 (boot \<lparr>content = None, on_write = Written\<rparr>)
       (JObj [(''userId'', JStr ''a''), (''playerCount'', JNum (Fin 7))])))) (JStr ''a''))
     ''playerCount'' = Inr (JNum (Fin 7))"
proof -
  let ?b0 = "JObj [(''userId'', JStr ''a''), (''playerCount'', JStr ''many'')]"
  let ?b7 = "JObj [(''userId'', JStr ''a''), (''playerCount'', JNum (Fin 7))]"
  have u0: "get_prop ?b0 ''userId'' = Inr (JStr ''a'')" by simp
  have u7: "get_prop ?b7 ''userId'' = Inr (JStr ''a'')" by simp
  have n: "''a'' \<noteq> []" by simp
  have p0: "get_prop ?b0 ''playerCount'' = Inr (JStr ''many'')" by simp
  have p7: "get_prop ?b7 ''playerCount'' = Inr (JNum (Fin 7))" by simp
  show ?thesis
    using stored_playerCount_is_number_or_zero [OF u0 n p0, of 10 "boot \<lparr>content = None, on_write = Written\<rparr>"]
      stored_playerCount_is_number_or_zero [OF u7 n p7, of 10 "boot \<lparr>content = None, on_write = Written\<rparr>"]
    by simp
qed

subsection \<open>C7: a load that fails\<close>

text \<open>
  Where the load fails before anything was set, the mapping that was empty stays
  empty and the server goes on, with one more line on its console: when the file is
  missing, is not valid JSON, is valid JSON that is no array, or is an array whose
  first element is no pair.
\<close>

lemma load_failure_leaves_empty_map:
  assumes "userData s = []"
    and "content (files s) = None \<or> content (files s) = Some Unparsable \<or>
      (\<exists>v. content (files s) = Some (Document v) \<and> (\<forall>xs. v \<noteq> JArr xs)) \<or>
      (\<exists>x xs e. content (files s) = Some (Document (JArr (x # xs))) \<and> destructure_pair x = Inl e)"
  shows "loadUserData s = s\<lparr>console := console s @ [StartingFresh]\<rparr>"
  using assms(2)
proof (elim disjE exE conjE)
  assume "content (files s) = None"
  then show ?thesis by (simp add: loadUserData_def fs_readFile_def)
next
  assume "content (files s) = Some Unparsable"
  then show ?thesis by (simp add: loadUserData_def fs_readFile_def)
next
  fix v assume "content (files s) = Some (Document v)" and "\<forall>xs. v \<noteq> JArr xs"
  then show ?thesis using assms(1)
    by (cases v) (simp_all add: loadUserData_def fs_readFile_def)
next
  fix x xs e
  assume "content (files s) = Some (Document (JArr (x # xs)))" and "destructure_pair x = Inl e"
  then show ?thesis using assms(1)
    by (simp add: loadUserData_def fs_readFile_def)
qed

text \<open>
  C7 says that a load that fails leaves the mapping empty: no subset of the entries
  of the file remains in it. \<^verbatim>\<open>loadUserData\<close> clears the map and sets the entries
  one by one inside the \<^verbatim>\<open>try\<close> whose \<^verbatim>\<open>catch\<close> logs that the server is
  \<^verbatim>\<open>starting fresh\<close>, and nothing undoes the entries set before the exception. A
  file that holds \<^verbatim>\<open>[["a",{"playerCount":3}],5]\<close> parses, its first element is set,
  the second is no pair and throws: the load ends in the \<^verbatim>\<open>catch\<close>, the console
  says \<^verbatim>\<open>starting fresh\<close>, and the mapping holds the entry of \<open>a\<close>.
\<close>

theorem failed_load_keeps_earlier_entries:
  "init \<lparr>content = Some (Document
       (JArr [JArr [JStr ''a'', JObj [(''playerCount'', JNum (Fin 3))]], JNum (Fin 5)])),
     on_write = Written\<rparr> =
   \<lparr>userData = [(JStr ''a'', JObj [(''playerCount'', JNum (Fin 3))])],
    files = \<lparr>content = Some (Document
       (JArr [JArr [JStr ''a'', JObj [(''playerCount'', JNum (Fin 3))]], JNum (Fin 5)])),
     on_write = Written\<rparr>,
    console = [StartingFresh]\<rparr>"
  by (simp add: init_def boot_def loadUserData_def fs_readFile_def)

theorem failed_load_keeps_earlier_entries_witness:
  "userData (init \<lparr>content = Some (Document
       (JArr [JArr [JStr ''a'', JObj [(''playerCount'', JNum (Fin 3))]], JNum (Fin 5)])),
     on_write = Written\<rparr>) = [(JStr ''a'', JObj [(''playerCount'', JNum (Fin 3))])]
   \<and> console (init \<lparr>content = Some (Document
       (JArr [JArr [JStr ''a'', JObj [(''playerCount'', JNum (Fin 3))]], JNum (Fin 5)])),
     on_write = Written\<rparr>) = [StartingFresh]"
  using failed_load_keeps_earlier_entries by simp

subsection \<open>C8: the aggregate across a restart\<close>

text \<open>
  C8 as stated, for every store state, fails: the submission
  \<^verbatim>\<open>{"userId":"a","playerCount":1e999}\<close> is parsed to a \<open>playerCount\<close> of
  \<^verbatim>\<open>Infinity\<close>, a number, and stored; the handler sums up to \<^verbatim>\<open>Infinity\<close>, which
  the client reads as \<^verbatim>\<open>null\<close>. JSON has no infinity, so the file too holds \<^verbatim>\<open>null\<close>
  in its place, and after a restart on that file the handler sums up to 0 and the
  client reads 0.
\<close>

theorem infinite_playerCount_is_lost_on_restart:
  "counts (userData (fst (post_userlist 1000 (boot \<lparr>content = None, on_write = Written\<rparr>)
       (JObj [(''userId'', JStr ''a''), (''playerCount'', JNum PosInf)])))) =
     Inr (PosInf, PosInf)
   \<and> get_player_count (fst (post_userlist 1000 (boot \<lparr>content = None, on_write = Written\<rparr>)
       (JObj [(''userId'', JStr ''a''), (''playerCount'', JNum PosInf)]))) =
     Response 200 (JObj [(''current'', JNull), (''total'', JNull)])
   \<and> counts (userData (init (files (saveUserData
       (fst (post_userlist 1000 (boot \<lparr>content = None, on_write = Written\<rparr>)
         (JObj [(''userId'', JStr ''a''), (''playerCount'', JNum PosInf)]))))))) =
     Inr (Fin 0, Fin 0)
   \<and> get_player_count (init (files (saveUserData
       (fst (post_userlist 1000 (boot \<lparr>content = None, on_write = Written\<rparr>)
         (JObj [(''userId'', JStr ''a''), (''playerCount'', JNum PosInf)])))))) =
     Response 200 (JObj [(''current'', JNum (Fin 0)), (''total'', JNum (Fin 0))])"
  by (simp add: post_userlist_def destructure_body_def boot_def new_record_def spread_def
      saveUserData_def fs_writeFile_def JSON_stringify_def entries_def
      init_def loadUserData_def fs_readFile_def get_player_count_def counts_def res_json_def)

text \<open>
  C8 as amended: for every store of user records (a Map whose keys are strings and
  whose records are objects) in which no \<open>playerCount\<close> is \<^verbatim>\<open>Infinity\<close> or
  \<^verbatim>\<open>-Infinity\<close>, when the write succeeds, \<^verbatim>\<open>save()\<close> followed by a restart that
  loads the written file gives the same answer to \<^verbatim>\<open>GET /player-count\<close> as before.
  Every store that submissions build is such a store of user records
  (\<open>post_userlist_keeps_map_inv\<close>, \<open>post_userlist_keeps_user_records\<close>).
\<close>

theorem restart_keeps_aggregate:
  assumes "map_inv (userData s)"
    and "\<forall>(k, u) \<in> set (userData s). (\<exists>uid. k = JStr uid) \<and>
      (\<exists>fs. u = JObj fs \<and> distinct (map fst fs)) \<and>
      get_prop u ''playerCount'' \<noteq> Inr (JNum PosInf) \<and>
      get_prop u ''playerCount'' \<noteq> Inr (JNum NegInf)"
    and "writable (files s)"
  shows "get_player_count (init (files (saveUserData s))) = get_player_count s"
proof -
  have keys: "\<forall>(k, u) \<in> set (userData s). \<exists>uid. k = JStr uid"
    using assms(2) by auto
  have recs: "\<forall>u \<in> set (map snd (userData s)). (\<exists>fs. u = JObj fs \<and> distinct (map fst fs)) \<and>
      get_prop u ''playerCount'' \<noteq> Inr (JNum PosInf) \<and>
      get_prop u ''playerCount'' \<noteq> Inr (JNum NegInf)"
    using assms(2) by auto
  have "map snd (map (\<lambda>(k, u). (k, to_json u)) (userData s)) = map to_json (map snd (userData s))"
    by (simp add: case_prod_unfold comp_def)
  then have "counts (userData (init (files (saveUserData s)))) = counts (userData s)"
    unfolding counts_def restart_serialises_records [OF assms(1) keys assms(3)]
    by (simp only: count_players_to_json [OF recs])
  then show ?thesis
    by (simp only: get_player_count_def)
qed

theorem restart_keeps_aggregate_witness:
  "get_player_count (init (files (saveUserData
     \<lparr>userData =
        [(JStr ''a'', JObj [(''playerCount'', JNum (Fin 3)), (''lastUpdated'', JNum (Fin 10))]),
         (JStr ''b'', JObj [(''playerCount'', JNum (Fin 5)), (''lastUpdated'', JNum (Fin 20)),
                           (''best'', JNum PosInf)])],
      files = \<lparr>content = None, on_write = Written\<rparr>, console = []\<rparr>))) =
   Response 200 (JObj [(''current'', JNum (Fin 8)), (''total'', JNum (Fin 8))])"
proof -
  let ?s = "\<lparr>userData =
        [(JStr ''a'', JObj [(''playerCount'', JNum (Fin 3)), (''lastUpdated'', JNum (Fin 10))]),
         (JStr ''b'', JObj [(''playerCount'', JNum (Fin 5)), (''lastUpdated'', JNum (Fin 20)),
                           (''best'', JNum PosInf)])],
      files = \<lparr>content = None, on_write = Written\<rparr>, console = []\<rparr>"
  have inv: "map_inv (userData ?s)" by simp
  have recs: "\<forall>(k, u) \<in> set (userData ?s). (\<exists>uid. k = JStr uid) \<and>
      (\<exists>fs. u = JObj fs \<and> distinct (map fst fs)) \<and>
      get_prop u ''playerCount'' \<noteq> Inr (JNum PosInf) \<and>
      get_prop u ''playerCount'' \<noteq> Inr (JNum NegInf)"
    by simp
  have w: "writable (files ?s)" by simp
  have s3: "round_double 3 = Fin 3" using round_double_of_int [of 3] by simp
  have s8: "round_double 8 = Fin 8" using round_double_of_int [of 8] by simp
  have "get_player_count ?s =
      Response 200 (JObj [(''current'', JNum (Fin 8)), (''total'', JNum (Fin 8))])"
    by (simp add: get_player_count_def counts_def res_json_def s3 s8)
  then show ?thesis
    using restart_keeps_aggregate [OF inv recs w] by simp
qed

subsection \<open>C9: the event stream\<close>

text \<open>
  C9 is about \<^verbatim>\<open>GET /player-count-stream\<close>. Its handler calls \<^verbatim>\<open>sendCounts\<close> once,
  which computes what \<open>counts\<close> computes, hands \<^verbatim>\<open>sendCounts\<close> to
  \<^verbatim>\<open>setInterval\<close> with a period of 5000 milliseconds and clears that interval when
  the request closes. When the later events are written and that none follows the
  close is decided by the timer queue and the clock of the JavaScript runtime, which
  are not functions of this program; they are not modelled here.
\<close>

subsection \<open>C10: the empty \<open>userId\<close>\<close>

text \<open>
  C10: a body whose \<open>userId\<close> is the empty string is answered with the 400 error and
  the server is left exactly as it was; the empty string is a string, but it is
  falsy, and the handler rejects a falsy \<open>userId\<close>.
\<close>

theorem empty_userId_is_rejected:
  assumes "get_prop body ''userId'' = Inr (JStr [])"
  shows "post_userlist now s body = (s, invalid_userId)"
  using assms by (simp add: post_userlist_rejected)

theorem empty_userId_is_rejected_witness:
  "post_userlist 10 (boot \<lparr>content = None, on_write = Written\<rparr>)
     (JObj [(''userId'', JStr []), (''playerCount'', JNum (Fin 3))]) =
     (boot \<lparr>content = None, on_write = Written\<rparr>, invalid_userId)"
proof -
  have e: "get_prop (JObj [(''userId'', JStr []), (''playerCount'', JNum (Fin 3))]) ''userId'' =
      Inr (JStr [])"
    by simp
  show ?thesis
    using empty_userId_is_rejected [OF e] by simp
qed

end
